theory Spec2Isabelle
  imports Complex_Main "HOL-Library.Multiset" "HOL-Library.Word"
begin

section \<open>Numbers of the notebook\<close>

text \<open>
  The samples \<open>x\<close>, the range \<open>xmin\<close>, \<open>xmax\<close> and the bin width are floats. A finite
  float is the real number it stands for; every operation rounds its exact result to the
  float type of its operands, and that rounding, \<open>rnd\<close>, is a parameter of every function
  of the model: the notebook leaves the dtype to the caller (it passes a float32 array
  with \<open>np.float32(-4.0)\<close> and \<open>np.float32(4.0)\<close>). A rounding that overflows gives an
  infinity. A division of numpy floats by zero does not raise: it warns and gives an
  infinity or nan. The sign of a zero is not kept: it never changes the index that
  \<open>np.int32\<close> returns.
\<close>

datatype npfloat = Finite real | PosInf | NegInf | NaN

text \<open>\<open>a - b\<close> for two finite floats.\<close>

definition np_subtract :: "(real \<Rightarrow> npfloat) \<Rightarrow> real \<Rightarrow> real \<Rightarrow> npfloat" where
  "np_subtract rnd a b = rnd (a - b)"

text \<open>\<open>a / b\<close> for numpy floats.\<close>

fun true_divide :: "(real \<Rightarrow> npfloat) \<Rightarrow> npfloat \<Rightarrow> npfloat \<Rightarrow> npfloat" where
  "true_divide rnd (Finite a) (Finite b) =
     (if b \<noteq> 0 then rnd (a / b)
      else if a = 0 then NaN
      else if 0 < a then PosInf else NegInf)"
| "true_divide rnd (Finite a) PosInf = Finite 0"
| "true_divide rnd (Finite a) NegInf = Finite 0"
| "true_divide rnd PosInf (Finite b) = (if 0 \<le> b then PosInf else NegInf)"
| "true_divide rnd NegInf (Finite b) = (if 0 \<le> b then NegInf else PosInf)"
| "true_divide rnd PosInf PosInf = NaN"
| "true_divide rnd PosInf NegInf = NaN"
| "true_divide rnd NegInf PosInf = NaN"
| "true_divide rnd NegInf NegInf = NaN"
| "true_divide rnd NaN b = NaN"
| "true_divide rnd a NaN = NaN"

text \<open>The C cast of a float to an integer drops the fraction: it rounds toward zero.\<close>

definition trunc_toward_zero :: "real \<Rightarrow> int" where
  "trunc_toward_zero q = (if q < 0 then - \<lfloor>- q\<rfloor> else \<lfloor>q\<rfloor>)"

text \<open>
  \<open>np.int32(q)\<close> for a numpy float \<open>q\<close>. A value that int32 cannot hold (out of range,
  infinite, nan) comes out of numpy's cast on x86-64 as the smallest int32.
\<close>

fun np_int32 :: "npfloat \<Rightarrow> int" where
  "np_int32 (Finite q) =
     (if - (2 ^ 31) \<le> trunc_toward_zero q \<and> trunc_toward_zero q < 2 ^ 31
      then trunc_toward_zero q else - (2 ^ 31))"
| "np_int32 PosInf = - (2 ^ 31)"
| "np_int32 NegInf = - (2 ^ 31)"
| "np_int32 NaN = - (2 ^ 31)"

subsection \<open>The rounding of float32 and float64\<close>

text \<open>
  IEEE 754 rounding to nearest, ties to even, to a format of \<open>p\<close> significant bits whose
  normal numbers have the exponents \<open>emin\<close> to \<open>emax\<close>: below \<open>emin\<close> the spacing of the
  numbers stays that of \<open>emin\<close> (subnormal numbers), above \<open>emax\<close> the result is an
  infinity.
\<close>

function bit_length :: "int \<Rightarrow> int" where
  "bit_length n = (if n \<le> 0 then 0 else 1 + bit_length (n div 2))"
  by pat_completeness auto
termination
  by (relation "measure nat") auto

declare bit_length.simps [simp del]

text \<open>The exponent \<open>e\<close> with \<open>2^e <= |x| < 2^(e+1)\<close>, for \<open>x\<close> other than 0.\<close>

definition exponent_of :: "real \<Rightarrow> int" where
  "exponent_of x =
     (if 1 \<le> \<bar>x\<bar> then bit_length \<lfloor>\<bar>x\<bar>\<rfloor> - 1
      else - bit_length (\<lceil>1 / \<bar>x\<bar>\<rceil> - 1))"

definition pow2 :: "int \<Rightarrow> real" where
  "pow2 k = (if 0 \<le> k then 2 ^ nat k else 1 / 2 ^ nat (- k))"

definition round_half_even :: "real \<Rightarrow> int" where
  "round_half_even q =
     (if q - real_of_int \<lfloor>q\<rfloor> < 1 / 2 then \<lfloor>q\<rfloor>
      else if 1 / 2 < q - real_of_int \<lfloor>q\<rfloor> then \<lfloor>q\<rfloor> + 1
      else if even \<lfloor>q\<rfloor> then \<lfloor>q\<rfloor> else \<lfloor>q\<rfloor> + 1)"

definition ieee_round :: "nat \<Rightarrow> int \<Rightarrow> int \<Rightarrow> real \<Rightarrow> npfloat" where
  "ieee_round p emin emax x =
     (if x = 0 then Finite 0
      else let e = max (exponent_of x) emin;
               ulp = pow2 (e - int p + 1);
               y = real_of_int (round_half_even (x / ulp)) * ulp
           in if emax < exponent_of y then (if 0 < x then PosInf else NegInf) else Finite y)"

definition float32 :: "real \<Rightarrow> npfloat" where
  "float32 = ieee_round 24 (- 126) 127"

definition float64 :: "real \<Rightarrow> npfloat" where
  "float64 = ieee_round 53 (- 1022) 1023"

section \<open>The arrays and the CPU histogram\<close>

text \<open>
  A call receives two arrays by reference: the samples \<open>x\<close> and the counters
  \<open>histogram_out\<close>, which it updates in place. The memory holds both, as two distinct
  arrays; a function of the notebook maps the memory before the call to the memory after
  it. The counters' type \<open>'c\<close> is the dtype the caller chose: the notebook passes int32
  arrays (\<open>32 word\<close>, whose \<open>+\<close> wraps around).
\<close>

record 'c memory =
  x_array :: "real list"
  histogram_out_array :: "'c list"

text \<open>
  \<open>bin_width = (xmax - xmin) / nbins\<close>, the same line in both functions, for numpy float
  bounds: \<open>nbins\<close> is converted to their float type.
\<close>

definition histogram_bin_width :: "(real \<Rightarrow> npfloat) \<Rightarrow> real \<Rightarrow> real \<Rightarrow> nat \<Rightarrow> npfloat" where
  "histogram_bin_width rnd xmin xmax nbins =
     true_divide rnd (np_subtract rnd xmax xmin) (rnd (real nbins))"

text \<open>\<open>bin_number = np.int32((element - xmin)/bin_width)\<close>\<close>

definition bin_number :: "(real \<Rightarrow> npfloat) \<Rightarrow> real \<Rightarrow> real \<Rightarrow> npfloat \<Rightarrow> int" where
  "bin_number rnd element xmin bin_width =
     np_int32 (true_divide rnd (np_subtract rnd element xmin) bin_width)"

text \<open>
  The body of both loops, on the counters: the range test, then the increment
  \<open>histogram_out[bin_number] += 1\<close>. The test keeps the index inside the array.
\<close>

definition count_element ::
  "(real \<Rightarrow> npfloat) \<Rightarrow> real \<Rightarrow> real \<Rightarrow> npfloat \<Rightarrow> ('c::{one,plus}) list \<Rightarrow> 'c list" where
  "count_element rnd element xmin bin_width histogram_out =
     (if bin_number rnd element xmin bin_width \<ge> 0
         \<and> bin_number rnd element xmin bin_width < int (length histogram_out)
      then histogram_out[nat (bin_number rnd element xmin bin_width) :=
             histogram_out ! nat (bin_number rnd element xmin bin_width) + 1]
      else histogram_out)"

text \<open>
  \<open>for element in x\<close>: the iterator reads \<open>x[i]\<close> from the array as it is when the
  iteration \<open>i\<close> starts.
\<close>

definition cpu_histogram ::
  "(real \<Rightarrow> npfloat) \<Rightarrow> real \<Rightarrow> real \<Rightarrow> ('c::{one,plus}) memory \<Rightarrow> 'c memory" where
  "cpu_histogram rnd xmin xmax s =
     (let nbins = length (histogram_out_array s);
          bin_width = histogram_bin_width rnd xmin xmax nbins
      in fold (\<lambda>i s. s\<lparr>histogram_out_array :=
                 count_element rnd (x_array s ! i) xmin bin_width (histogram_out_array s)\<rparr>)
           [0..<length (x_array s)] s)"



section \<open>The CUDA histogram\<close>

text \<open>
  \<open>range(start, stop, step)\<close> for the arguments a thread passes: \<open>start\<close> and \<open>stop\<close> are
  not negative, and \<open>step\<close> is the size of the grid, at least 1 for every thread that
  runs. Python's \<open>range\<close> raises on a step of 0; no thread reaches that.
\<close>

function py_range :: "nat \<Rightarrow> nat \<Rightarrow> nat \<Rightarrow> nat list" where
  "py_range start stop step =
     (if step = 0 \<or> stop \<le> start then [] else start # py_range (start + step) stop step)"
  by pat_completeness auto
termination
  by (relation "measure (\<lambda>(start, stop, step). stop - start)") auto

declare py_range.simps [simp del]

text \<open>
  \<open>cuda.grid(1)\<close> and \<open>cuda.gridsize(1)\<close>, as the first \<open>add_kernel\<close> of the notebook
  spells them out.
\<close>

definition cuda_grid :: "nat \<Rightarrow> nat \<Rightarrow> nat \<Rightarrow> nat" where
  "cuda_grid tx ty block_size = tx + ty * block_size"

definition cuda_gridsize :: "nat \<Rightarrow> nat \<Rightarrow> nat" where
  "cuda_gridsize block_size grid_size = block_size * grid_size"

text \<open>\<open>cuda.atomic.add(array, idx, val)\<close>: one indivisible read, add and write.\<close>

definition atomic_add :: "('c::plus) list \<Rightarrow> nat \<Rightarrow> 'c \<Rightarrow> 'c list" where
  "atomic_add array idx val = array[idx := array ! idx + val]"

text \<open>One iteration of the kernel's loop, for the index \<open>i\<close>.\<close>

definition cuda_iteration ::
  "(real \<Rightarrow> npfloat) \<Rightarrow> real \<Rightarrow> npfloat \<Rightarrow> nat \<Rightarrow> ('c::{one,plus}) memory \<Rightarrow> 'c memory" where
  "cuda_iteration rnd xmin bin_width i s =
     (if bin_number rnd (x_array s ! i) xmin bin_width \<ge> 0
         \<and> bin_number rnd (x_array s ! i) xmin bin_width < int (length (histogram_out_array s))
      then s\<lparr>histogram_out_array :=
             atomic_add (histogram_out_array s)
               (nat (bin_number rnd (x_array s ! i) xmin bin_width)) 1\<rparr>
      else s)"

text \<open>
  The kernel as one thread runs it from beginning to end, with its \<open>start\<close> and \<open>stride\<close>.
\<close>

definition cuda_histogram ::
  "(real \<Rightarrow> npfloat) \<Rightarrow> nat \<Rightarrow> nat \<Rightarrow> real \<Rightarrow> real \<Rightarrow> ('c::{one,plus}) memory \<Rightarrow> 'c memory" where
  "cuda_histogram rnd start stride xmin xmax s =
     (let nbins = length (histogram_out_array s);
          bin_width = histogram_bin_width rnd xmin xmax nbins
      in fold (cuda_iteration rnd xmin bin_width) (py_range start (length (x_array s)) stride) s)"

text \<open>
  The threads of a launch \<open>cuda_histogram[blocks_per_grid, threads_per_block]\<close>, by their
  starting offsets, block after block.
\<close>

definition thread_starts :: "nat \<Rightarrow> nat \<Rightarrow> nat list" where
  "thread_starts blocks_per_grid threads_per_block =
     concat (map (\<lambda>ty. map (\<lambda>tx. cuda_grid tx ty threads_per_block) [0..<threads_per_block])
       [0..<blocks_per_grid])"

text \<open>One schedule of a launch: the threads run one after the other.\<close>

definition launch_in_turn ::
  "(real \<Rightarrow> npfloat) \<Rightarrow> nat \<Rightarrow> nat \<Rightarrow> real \<Rightarrow> real \<Rightarrow> ('c::{one,plus}) memory \<Rightarrow> 'c memory" where
  "launch_in_turn rnd blocks_per_grid threads_per_block xmin xmax s =
     fold (\<lambda>start.
         cuda_histogram rnd start (cuda_gridsize threads_per_block blocks_per_grid) xmin xmax)
       (thread_starts blocks_per_grid threads_per_block) s"

text \<open>
  Every schedule of a launch. A thread is the list of the indices its loop has still to
  visit, and a schedule is the list of the threads in the order in which they take a
  step. A step is one iteration of one thread: the iteration reads \<open>x\<close> and its own
  locals and changes the memory in the atomic addition only, so the steps of different
  threads interleave as wholes. The bin width is the one every thread computed on entry;
  the number of bins never changes. A schedule that names a thread that does not exist,
  or one that has finished, is no schedule of the launch: \<open>None\<close>.
\<close>

definition threads_of_launch :: "nat \<Rightarrow> nat \<Rightarrow> 'c memory \<Rightarrow> nat list list" where
  "threads_of_launch blocks_per_grid threads_per_block s =
     map (\<lambda>start. py_range start (length (x_array s))
            (cuda_gridsize threads_per_block blocks_per_grid))
       (thread_starts blocks_per_grid threads_per_block)"

definition thread_step ::
  "(real \<Rightarrow> npfloat) \<Rightarrow> real \<Rightarrow> real \<Rightarrow> nat \<Rightarrow> nat list list \<times> ('c::{one,plus}) memory \<Rightarrow>
   (nat list list \<times> 'c memory) option" where
  "thread_step rnd xmin xmax k c =
     (if k < length (fst c)
      then (case fst c ! k of
              [] \<Rightarrow> None
            | i # rest \<Rightarrow>
                Some ((fst c)[k := rest],
                  cuda_iteration rnd xmin
                    (histogram_bin_width rnd xmin xmax (length (histogram_out_array (snd c))))
                    i (snd c)))
      else None)"

fun run_schedule ::
  "(real \<Rightarrow> npfloat) \<Rightarrow> real \<Rightarrow> real \<Rightarrow> nat list \<Rightarrow> nat list list \<times> ('c::{one,plus}) memory \<Rightarrow>
   (nat list list \<times> 'c memory) option" where
  "run_schedule rnd xmin xmax [] c = Some c"
| "run_schedule rnd xmin xmax (k # schedule) c =
     (case thread_step rnd xmin xmax k c of
        None \<Rightarrow> None
      | Some c' \<Rightarrow> run_schedule rnd xmin xmax schedule c')"

section \<open>Notions the properties are stated with\<close>

text \<open>
  The number of samples of \<open>x\<close> that the code assigns to bin \<open>b\<close> of \<open>nbins\<close> bins.
\<close>

definition samples_in_bin ::
  "(real \<Rightarrow> npfloat) \<Rightarrow> real list \<Rightarrow> real \<Rightarrow> real \<Rightarrow> nat \<Rightarrow> nat \<Rightarrow> nat" where
  "samples_in_bin rnd x xmin xmax nbins b =
     length (filter (\<lambda>element.
       bin_number rnd element xmin (histogram_bin_width rnd xmin xmax nbins) = int b) x)"

text \<open>
  The memory a configuration of a launch ends in when the iterations still to run are run
  thread after thread. It is the invariant of the schedules.
\<close>

definition remaining_work ::
  "(real \<Rightarrow> npfloat) \<Rightarrow> real \<Rightarrow> real \<Rightarrow> nat list list \<times> ('c::{one,plus}) memory \<Rightarrow> 'c memory" where
  "remaining_work rnd xmin xmax c =
     fold (cuda_iteration rnd xmin
             (histogram_bin_width rnd xmin xmax (length (histogram_out_array (snd c)))))
       (concat (fst c)) (snd c)"

text \<open>
  The bin assignment rule in the words of the specification:
  \<open>bin_index = floor((v - low) / bin_width)\<close> with \<open>bin_width = (high - low) / bin_count\<close>,
  for a valid range and bin count.
\<close>

definition spec_bin_index :: "real \<Rightarrow> real \<Rightarrow> real \<Rightarrow> nat \<Rightarrow> int" where
  "spec_bin_index v low high bin_count = \<lfloor>(v - low) / ((high - low) / real bin_count)\<rfloor>"



section \<open>Properties of the loops\<close>

subsection \<open>The loop body and the CPU loop\<close>
lemma length_count_element [simp]:
  "length (count_element rnd element xmin bin_width out) = length out"
  by (simp add: count_element_def)

lemma nth_count_element:
  "b < length out \<Longrightarrow>
   count_element rnd element xmin bin_width out ! b =
     (if bin_number rnd element xmin bin_width = int b then out ! b + 1 else out ! b)"
  by (auto simp: count_element_def nth_list_update)

lemma count_element_commute:
  "count_element rnd e1 xmin bin_width (count_element rnd e2 xmin bin_width out) =
   count_element rnd e2 xmin bin_width (count_element rnd e1 xmin bin_width out)"
  by (rule nth_equalityI) (auto simp: nth_count_element)

lemma fold_count_element_length [simp]:
  "length (fold (\<lambda>element. count_element rnd element xmin bin_width) xs out) = length out"
  by (induction xs arbitrary: out) auto

lemma cpu_loop_memory:
  "fold (\<lambda>i s. s\<lparr>histogram_out_array :=
           count_element rnd (x_array s ! i) xmin bin_width (histogram_out_array s)\<rparr>) is s =
   s\<lparr>histogram_out_array :=
       fold (\<lambda>i. count_element rnd (x_array s ! i) xmin bin_width) is (histogram_out_array s)\<rparr>"
  by (induction "is" arbitrary: s) auto

lemma fold_nth_upt: "fold (\<lambda>i. f (xs ! i)) [0..<length xs] = fold f xs"
proof -
  have "fold f (map ((!) xs) [0..<length xs]) = fold (f \<circ> (!) xs) [0..<length xs]"
    by (rule fold_map)
  then show ?thesis
    by (simp add: map_nth comp_def)
qed

lemma cpu_histogram_accumulate:
  "cpu_histogram rnd xmin xmax s =
   s\<lparr>histogram_out_array :=
       fold (\<lambda>element. count_element rnd element xmin
               (histogram_bin_width rnd xmin xmax (length (histogram_out_array s))))
         (x_array s) (histogram_out_array s)\<rparr>"
proof -
  define bw where "bw = histogram_bin_width rnd xmin xmax (length (histogram_out_array s))"
  have "cpu_histogram rnd xmin xmax s =
        s\<lparr>histogram_out_array :=
            fold (\<lambda>i. count_element rnd (x_array s ! i) xmin bw) [0..<length (x_array s)]
              (histogram_out_array s)\<rparr>"
    unfolding cpu_histogram_def Let_def bw_def by (rule cpu_loop_memory)
  also have "fold (\<lambda>i. count_element rnd (x_array s ! i) xmin bw) [0..<length (x_array s)] =
             fold (\<lambda>element. count_element rnd element xmin bw) (x_array s)"
    by (rule fold_nth_upt)
  finally show ?thesis
    unfolding bw_def .
qed

lemma nth_fold_count_element:
  fixes out :: "('c::semiring_1) list"
  shows "b < length out \<Longrightarrow>
   fold (\<lambda>element. count_element rnd element xmin bin_width) xs out ! b =
     out ! b + of_nat (length (filter (\<lambda>element. bin_number rnd element xmin bin_width = int b) xs))"
proof (induction xs arbitrary: out)
  case Nil
  then show ?case by simp
next
  case (Cons e xs)
  then show ?case
    by (simp add: nth_count_element add.assoc)
qed


subsection \<open>The strided range\<close>

lemma py_range_unfold:
  "0 < step \<Longrightarrow> start < stop \<Longrightarrow>
   py_range start stop step = start # py_range (start + step) stop step"
  by (subst py_range.simps) simp

lemma py_range_empty: "stop \<le> start \<Longrightarrow> py_range start stop step = []"
  by (subst py_range.simps) simp

lemma mod_eq_next:
  fixes i start step :: nat
  assumes "start \<le> i" "i mod step = start mod step" "i \<noteq> start"
  shows "start + step \<le> i"
proof -
  have "step dvd i - start"
    using assms(1,2) by (simp add: mod_eq_dvd_iff_nat)
  moreover have "0 < i - start"
    using assms(1,3) by simp
  ultimately have "step \<le> i - start"
    by (rule dvd_imp_le)
  then show ?thesis
    using assms(1) by simp
qed

lemma set_py_range:
  "0 < step \<Longrightarrow>
   set (py_range start stop step) = {i. start \<le> i \<and> i < stop \<and> i mod step = start mod step}"
proof (induction start stop step rule: py_range.induct)
  case (1 start stop step)
  show ?case
  proof (cases "stop \<le> start")
    case True
    then show ?thesis
      by (auto simp: py_range_empty)
  next
    case False
    then have lt: "start < stop" by simp
    have IH: "set (py_range (start + step) stop step) =
              {i. start + step \<le> i \<and> i < stop \<and> i mod step = (start + step) mod step}"
      using 1 False by simp
    have "{i. start \<le> i \<and> i < stop \<and> i mod step = start mod step} =
          insert start {i. start + step \<le> i \<and> i < stop \<and> i mod step = (start + step) mod step}"
      using lt "1.prems" by (auto dest: mod_eq_next)
    then show ?thesis
      using lt "1.prems" IH by (simp add: py_range_unfold)
  qed
qed

lemma distinct_py_range: "0 < step \<Longrightarrow> distinct (py_range start stop step)"
proof (induction start stop step rule: py_range.induct)
  case (1 start stop step)
  show ?case
  proof (cases "stop \<le> start")
    case True
    then show ?thesis
      by (simp add: py_range_empty)
  next
    case False
    then have lt: "start < stop" by simp
    have "distinct (py_range (start + step) stop step)"
      using 1 False by simp
    moreover have "start \<notin> set (py_range (start + step) stop step)"
      using "1.prems" by (simp add: set_py_range)
    ultimately show ?thesis
      using lt "1.prems" by (simp add: py_range_unfold)
  qed
qed

lemma py_range_less: "i \<in> set (py_range start stop step) \<Longrightarrow> i < stop"
proof (cases "0 < step")
  case True
  assume "i \<in> set (py_range start stop step)"
  then show ?thesis
    using True by (simp add: set_py_range)
next
  case False
  assume "i \<in> set (py_range start stop step)"
  then show ?thesis
    using False by (subst (asm) py_range.simps) simp
qed

lemma set_py_range_thread:
  "k < W \<Longrightarrow> set (py_range k M W) = {i. i < M \<and> i mod W = k}"
proof -
  assume k: "k < W"
  have "i mod W = k \<Longrightarrow> k \<le> i" for i
    using mod_less_eq_dividend [of i W] by simp
  then show ?thesis
    using k by (auto simp: set_py_range)
qed

lemma mset_py_range_thread:
  assumes "k < W"
  shows "mset (py_range k M W) = mset (filter (\<lambda>i. i mod W = k) [0..<M])"
proof -
  have "distinct (py_range k M W)"
    using assms by (simp add: distinct_py_range)
  moreover have "distinct (filter (\<lambda>i. i mod W = k) [0..<M])"
    by simp
  moreover have "set (py_range k M W) = set (filter (\<lambda>i. i mod W = k) [0..<M])"
    using assms by (auto simp: set_py_range_thread)
  ultimately show ?thesis
    using set_eq_iff_mset_eq_distinct by blast
qed

lemma mset_py_range_upto:
  "j \<le> W \<Longrightarrow>
   mset (concat (map (\<lambda>k. py_range k M W) [0..<j])) = mset (filter (\<lambda>i. i mod W < j) [0..<M])"
proof (induction j)
  case 0
  then show ?case by simp
next
  case (Suc j)
  then have "j < W" by simp
  have "mset (concat (map (\<lambda>k. py_range k M W) [0..<Suc j])) =
        mset (filter (\<lambda>i. i mod W < j) [0..<M]) + mset (filter (\<lambda>i. i mod W = j) [0..<M])"
    using Suc \<open>j < W\<close> by (simp add: mset_py_range_thread)
  also have "\<dots> = mset (filter (\<lambda>i. i mod W < Suc j) [0..<M])"
    by (induction M) (auto simp: less_Suc_eq)
  finally show ?case .
qed

lemma mset_py_range_all:
  assumes "0 < W"
  shows "mset (concat (map (\<lambda>k. py_range k M W) [0..<W])) = mset [0..<M]"
proof -
  have "filter (\<lambda>i. i mod W < W) [0..<M] = [0..<M]"
    using assms by simp
  then show ?thesis
    using mset_py_range_upto [of W W M] by simp
qed

lemma thread_starts_Suc:
  "thread_starts (Suc b) t = thread_starts b t @ map (\<lambda>tx. cuda_grid tx b t) [0..<t]"
  by (simp add: thread_starts_def)

lemma thread_starts_upt:
  "thread_starts blocks_per_grid threads_per_block =
   [0..<cuda_gridsize threads_per_block blocks_per_grid]"
proof (induction blocks_per_grid)
  case 0
  then show ?case
    by (simp add: thread_starts_def cuda_gridsize_def)
next
  case (Suc b)
  let ?t = threads_per_block
  have "map (\<lambda>tx. cuda_grid tx b ?t) [0..<?t] = map (\<lambda>tx. tx + b * ?t) [0..<?t]"
    by (simp add: cuda_grid_def)
  also have "\<dots> = [b * ?t..<?t + b * ?t]"
    by (rule map_add_upt)
  finally have block: "map (\<lambda>tx. cuda_grid tx b ?t) [0..<?t] = [b * ?t..<b * ?t + ?t]"
    by (simp only: add.commute)
  have "thread_starts (Suc b) ?t = [0..<b * ?t] @ [b * ?t..<b * ?t + ?t]"
    using Suc block by (simp only: thread_starts_Suc cuda_gridsize_def mult.commute)
  also have "\<dots> = [0..<b * ?t + ?t]"
    by (simp only: upt_add_eq_append [OF le0])
  also have "b * ?t + ?t = cuda_gridsize ?t (Suc b)"
    by (simp add: cuda_gridsize_def)
  finally show ?case .
qed


subsection \<open>The kernel, thread after thread\<close>

lemma cuda_iteration_count:
  "cuda_iteration rnd xmin bin_width i s =
   s\<lparr>histogram_out_array :=
       count_element rnd (x_array s ! i) xmin bin_width (histogram_out_array s)\<rparr>"
  by (simp add: cuda_iteration_def count_element_def atomic_add_def)

lemma cuda_loop_memory:
  "fold (cuda_iteration rnd xmin bin_width) is s =
   s\<lparr>histogram_out_array :=
       fold (\<lambda>i. count_element rnd (x_array s ! i) xmin bin_width) is (histogram_out_array s)\<rparr>"
  by (induction "is" arbitrary: s) (auto simp: cuda_iteration_count)

lemma fold_count_index_length [simp]:
  "length (fold (\<lambda>i. count_element rnd (x ! i) xmin bin_width) is out) = length out"
  by (induction "is" arbitrary: out) auto

lemma count_index_commute:
  "(\<lambda>i. count_element rnd (x ! i) xmin bin_width) i \<circ> (\<lambda>i. count_element rnd (x ! i) xmin bin_width) j =
   (\<lambda>i. count_element rnd (x ! i) xmin bin_width) j \<circ> (\<lambda>i. count_element rnd (x ! i) xmin bin_width) i"
  by (rule ext) (simp add: count_element_commute)

lemma fold_count_index_mset:
  assumes "mset is = mset js"
  shows "fold (\<lambda>i. count_element rnd (x ! i) xmin bin_width) is =
         fold (\<lambda>i. count_element rnd (x ! i) xmin bin_width) js"
  using count_index_commute assms by (rule fold_multiset_equiv)

lemma cuda_histogram_accumulate:
  "cuda_histogram rnd start stride xmin xmax s =
   s\<lparr>histogram_out_array :=
       fold (\<lambda>i. count_element rnd (x_array s ! i) xmin
               (histogram_bin_width rnd xmin xmax (length (histogram_out_array s))))
         (py_range start (length (x_array s)) stride) (histogram_out_array s)\<rparr>"
  unfolding cuda_histogram_def Let_def by (rule cuda_loop_memory)

lemma threads_in_turn_accumulate:
  "fold (\<lambda>start. cuda_histogram rnd start stride xmin xmax) starts s =
   s\<lparr>histogram_out_array :=
       fold (\<lambda>i. count_element rnd (x_array s ! i) xmin
               (histogram_bin_width rnd xmin xmax (length (histogram_out_array s))))
         (concat (map (\<lambda>start. py_range start (length (x_array s)) stride) starts))
         (histogram_out_array s)\<rparr>"
proof (induction starts arbitrary: s)
  case Nil
  then show ?case by simp
next
  case (Cons k starts)
  define s' where "s' = cuda_histogram rnd k stride xmin xmax s"
  define bw where "bw = histogram_bin_width rnd xmin xmax (length (histogram_out_array s))"
  have s': "s' = s\<lparr>histogram_out_array :=
                  fold (\<lambda>i. count_element rnd (x_array s ! i) xmin bw)
                    (py_range k (length (x_array s)) stride) (histogram_out_array s)\<rparr>"
    unfolding s'_def bw_def by (rule cuda_histogram_accumulate)
  have x: "x_array s' = x_array s" and len: "length (histogram_out_array s') = length (histogram_out_array s)"
    by (simp_all add: s')
  have "fold (\<lambda>start. cuda_histogram rnd start stride xmin xmax) (k # starts) s =
        fold (\<lambda>start. cuda_histogram rnd start stride xmin xmax) starts s'"
    by (simp add: s'_def)
  also have "\<dots> = s'\<lparr>histogram_out_array :=
       fold (\<lambda>i. count_element rnd (x_array s ! i) xmin bw)
         (concat (map (\<lambda>start. py_range start (length (x_array s)) stride) starts))
         (histogram_out_array s')\<rparr>"
    unfolding Cons.IH x len bw_def ..
  also have "\<dots> = s\<lparr>histogram_out_array :=
       fold (\<lambda>i. count_element rnd (x_array s ! i) xmin bw)
         (concat (map (\<lambda>start. py_range start (length (x_array s)) stride) (k # starts)))
         (histogram_out_array s)\<rparr>"
    by (simp add: s')
  finally show ?case
    unfolding bw_def .
qed

lemma launch_in_turn_accumulate:
  assumes "0 < blocks_per_grid" "0 < threads_per_block"
  shows "launch_in_turn rnd blocks_per_grid threads_per_block xmin xmax s =
   s\<lparr>histogram_out_array :=
       fold (\<lambda>i. count_element rnd (x_array s ! i) xmin
               (histogram_bin_width rnd xmin xmax (length (histogram_out_array s))))
         [0..<length (x_array s)] (histogram_out_array s)\<rparr>"
proof -
  let ?W = "cuda_gridsize threads_per_block blocks_per_grid"
  have W: "0 < ?W"
    using assms by (simp add: cuda_gridsize_def)
  have "mset (concat (map (\<lambda>start. py_range start (length (x_array s)) ?W) [0..<?W])) =
        mset [0..<length (x_array s)]"
    using W by (rule mset_py_range_all)
  then have "fold (\<lambda>i. count_element rnd (x_array s ! i) xmin
               (histogram_bin_width rnd xmin xmax (length (histogram_out_array s))))
         (concat (map (\<lambda>start. py_range start (length (x_array s)) ?W) [0..<?W]))
         (histogram_out_array s) =
       fold (\<lambda>i. count_element rnd (x_array s ! i) xmin
               (histogram_bin_width rnd xmin xmax (length (histogram_out_array s))))
         [0..<length (x_array s)] (histogram_out_array s)"
    by (rule fun_cong [OF fold_count_index_mset])
  moreover have "launch_in_turn rnd blocks_per_grid threads_per_block xmin xmax s =
     s\<lparr>histogram_out_array :=
       fold (\<lambda>i. count_element rnd (x_array s ! i) xmin
               (histogram_bin_width rnd xmin xmax (length (histogram_out_array s))))
         (concat (map (\<lambda>start. py_range start (length (x_array s)) ?W) [0..<?W]))
         (histogram_out_array s)\<rparr>"
    unfolding launch_in_turn_def thread_starts_upt by (rule threads_in_turn_accumulate)
  ultimately show ?thesis
    by simp
qed

lemma cpu_histogram_indices:
  "cpu_histogram rnd xmin xmax s =
   s\<lparr>histogram_out_array :=
       fold (\<lambda>i. count_element rnd (x_array s ! i) xmin
               (histogram_bin_width rnd xmin xmax (length (histogram_out_array s))))
         [0..<length (x_array s)] (histogram_out_array s)\<rparr>"
  unfolding cpu_histogram_def Let_def by (rule cpu_loop_memory)

lemma launch_in_turn_eq_cpu:
  "0 < blocks_per_grid \<Longrightarrow> 0 < threads_per_block \<Longrightarrow>
   launch_in_turn rnd blocks_per_grid threads_per_block xmin xmax s = cpu_histogram rnd xmin xmax s"
  by (simp only: launch_in_turn_accumulate cpu_histogram_indices)


subsection \<open>Every schedule\<close>

lemma x_array_cuda_iteration [simp]:
  "x_array (cuda_iteration rnd xmin bin_width i s) = x_array s"
  by (simp add: cuda_iteration_count)

lemma length_cuda_iteration [simp]:
  "length (histogram_out_array (cuda_iteration rnd xmin bin_width i s)) =
   length (histogram_out_array s)"
  by (simp add: cuda_iteration_count)

lemma cuda_iteration_commute:
  "cuda_iteration rnd xmin bin_width i (cuda_iteration rnd xmin bin_width j s) =
   cuda_iteration rnd xmin bin_width j (cuda_iteration rnd xmin bin_width i s)"
  by (simp add: cuda_iteration_count count_element_commute)

lemma fold_cuda_iteration_mset:
  assumes "mset is = mset js"
  shows "fold (cuda_iteration rnd xmin bin_width) is = fold (cuda_iteration rnd xmin bin_width) js"
proof (rule fold_multiset_equiv [OF _ assms])
  fix i j
  show "cuda_iteration rnd xmin bin_width i \<circ> cuda_iteration rnd xmin bin_width j =
        cuda_iteration rnd xmin bin_width j \<circ> cuda_iteration rnd xmin bin_width i"
    by (rule ext) (simp add: cuda_iteration_commute)
qed

lemma mset_concat_update:
  assumes "k < length ts" "ts ! k = i # rest"
  shows "mset (concat ts) = mset (i # concat (ts[k := rest]))"
proof -
  have "ts = take k ts @ (i # rest) # drop (Suc k) ts"
    using assms by (metis id_take_nth_drop)
  then have "concat ts = concat (take k ts) @ (i # rest) @ concat (drop (Suc k) ts)"
    by (metis concat.simps(2) concat_append)
  moreover have "ts[k := rest] = take k ts @ rest # drop (Suc k) ts"
    using assms(1) by (rule upd_conv_take_nth_drop)
  then have "concat (ts[k := rest]) = concat (take k ts) @ rest @ concat (drop (Suc k) ts)"
    by simp
  ultimately show ?thesis
    by simp
qed

lemma thread_step_Some:
  assumes "thread_step rnd xmin xmax k (ts, s) = Some c'"
  obtains i rest where "k < length ts" and "ts ! k = i # rest"
    and "c' = (ts[k := rest],
           cuda_iteration rnd xmin
             (histogram_bin_width rnd xmin xmax (length (histogram_out_array s))) i s)"
  using assms by (auto simp: thread_step_def split: if_splits list.splits)

lemma thread_step_remaining_work:
  assumes "thread_step rnd xmin xmax k c = Some c'"
  shows "remaining_work rnd xmin xmax c' = remaining_work rnd xmin xmax c"
proof -
  obtain ts s where c: "c = (ts, s)"
    by (cases c)
  define bw where "bw = histogram_bin_width rnd xmin xmax (length (histogram_out_array s))"
  obtain i rest where k: "k < length ts" "ts ! k = i # rest"
    and c': "c' = (ts[k := rest], cuda_iteration rnd xmin bw i s)"
    using assms unfolding c bw_def by (rule thread_step_Some)
  have "fold (cuda_iteration rnd xmin bw) (concat ts) s =
        fold (cuda_iteration rnd xmin bw) (i # concat (ts[k := rest])) s"
    using mset_concat_update [OF k]
    by (rule fun_cong [OF fold_cuda_iteration_mset])
  then show ?thesis
    by (simp add: remaining_work_def c c' bw_def)
qed

lemma run_schedule_remaining_work:
  "run_schedule rnd xmin xmax schedule c = Some c' \<Longrightarrow>
   remaining_work rnd xmin xmax c' = remaining_work rnd xmin xmax c"
proof (induction schedule arbitrary: c)
  case Nil
  then show ?case by simp
next
  case (Cons k schedule)
  then obtain c1 where "thread_step rnd xmin xmax k c = Some c1"
    and "run_schedule rnd xmin xmax schedule c1 = Some c'"
    by (auto split: option.splits)
  then show ?case
    using Cons.IH thread_step_remaining_work by fastforce
qed

lemma thread_step_x_array:
  assumes "thread_step rnd xmin xmax k c = Some c'"
  shows "x_array (snd c') = x_array (snd c)"
proof -
  obtain ts s where c: "c = (ts, s)"
    by (cases c)
  show ?thesis
    using assms unfolding c by (rule thread_step_Some) simp
qed

lemma run_schedule_x_array:
  "run_schedule rnd xmin xmax schedule c = Some c' \<Longrightarrow> x_array (snd c') = x_array (snd c)"
proof (induction schedule arbitrary: c)
  case Nil
  then show ?case by simp
next
  case (Cons k schedule)
  then obtain c1 where "thread_step rnd xmin xmax k c = Some c1"
    and "run_schedule rnd xmin xmax schedule c1 = Some c'"
    by (auto split: option.splits)
  then show ?case
    using Cons.IH thread_step_x_array by fastforce
qed

lemma remaining_work_launch:
  assumes "0 < blocks_per_grid" "0 < threads_per_block"
  shows "remaining_work rnd xmin xmax (threads_of_launch blocks_per_grid threads_per_block s, s) =
         cpu_histogram rnd xmin xmax s"
proof -
  have "remaining_work rnd xmin xmax (threads_of_launch blocks_per_grid threads_per_block s, s) =
        launch_in_turn rnd blocks_per_grid threads_per_block xmin xmax s"
    by (simp add: remaining_work_def threads_of_launch_def launch_in_turn_def
        cuda_loop_memory threads_in_turn_accumulate)
  then show ?thesis
    using assms by (simp add: launch_in_turn_eq_cpu)
qed

lemma finished_schedule_eq_cpu:
  assumes "0 < blocks_per_grid" "0 < threads_per_block"
    and "run_schedule rnd xmin xmax schedule
           (threads_of_launch blocks_per_grid threads_per_block s, s) = Some (ts', s')"
    and "concat ts' = []"
  shows "s' = cpu_histogram rnd xmin xmax s"
proof -
  have "s' = remaining_work rnd xmin xmax (ts', s')"
    by (simp only: remaining_work_def fst_conv snd_conv assms(4) fold_simps)
  also have "\<dots> = remaining_work rnd xmin xmax (threads_of_launch blocks_per_grid threads_per_block s, s)"
    using assms(3) by (rule run_schedule_remaining_work)
  finally show ?thesis
    using assms(1,2) by (simp add: remaining_work_launch)
qed

subsection \<open>A schedule that finishes\<close>

lemma run_schedule_append:
  "run_schedule rnd xmin xmax (schedule @ schedule') c =
   (case run_schedule rnd xmin xmax schedule c of
      None \<Rightarrow> None
    | Some c' \<Rightarrow> run_schedule rnd xmin xmax schedule' c')"
  by (induction schedule arbitrary: c) (auto split: option.splits)

lemma thread_runs_to_end:
  "k < length ts \<Longrightarrow> ts ! k = is \<Longrightarrow>
   run_schedule rnd xmin xmax (replicate (length is) k) (ts, s) =
   Some (ts[k := []],
      fold (cuda_iteration rnd xmin
              (histogram_bin_width rnd xmin xmax (length (histogram_out_array s)))) is s)"
proof (induction "is" arbitrary: ts s)
  case Nil
  then have "ts[k := []] = ts"
    by (metis list_update_id)
  then show ?case
    by simp
next
  case (Cons i rest)
  define bw where "bw = histogram_bin_width rnd xmin xmax (length (histogram_out_array s))"
  have "thread_step rnd xmin xmax k (ts, s) = Some (ts[k := rest], cuda_iteration rnd xmin bw i s)"
    using Cons.prems by (simp add: thread_step_def bw_def)
  moreover have "run_schedule rnd xmin xmax (replicate (length rest) k)
      (ts[k := rest], cuda_iteration rnd xmin bw i s) =
      Some (ts[k := rest, k := []], fold (cuda_iteration rnd xmin bw) rest (cuda_iteration rnd xmin bw i s))"
    using Cons.IH [of "ts[k := rest]" "cuda_iteration rnd xmin bw i s"] Cons.prems(1)
    by (simp add: bw_def)
  ultimately show ?case
    by (simp add: bw_def)
qed

lemma threads_run_in_turn:
  "\<exists>schedule. run_schedule rnd xmin xmax schedule (pre @ ts, s) =
     Some (pre @ map (\<lambda>_. []) ts,
      fold (\<lambda>is s. fold (cuda_iteration rnd xmin
              (histogram_bin_width rnd xmin xmax (length (histogram_out_array s)))) is s)
        ts s)"
proof (induction ts arbitrary: pre s)
  case Nil
  have "run_schedule rnd xmin xmax [] (pre @ [], s) = Some (pre @ map (\<lambda>_. []) [], fold
      (\<lambda>is s. fold (cuda_iteration rnd xmin
         (histogram_bin_width rnd xmin xmax (length (histogram_out_array s)))) is s) [] s)"
    by simp
  then show ?case ..
next
  case (Cons t ts)
  define s1 where "s1 = fold (cuda_iteration rnd xmin
      (histogram_bin_width rnd xmin xmax (length (histogram_out_array s)))) t s"
  have "run_schedule rnd xmin xmax (replicate (length t) (length pre)) (pre @ t # ts, s) =
        Some ((pre @ t # ts)[length pre := []], s1)"
    unfolding s1_def by (rule thread_runs_to_end) simp_all
  then have first: "run_schedule rnd xmin xmax (replicate (length t) (length pre)) (pre @ t # ts, s) =
        Some ((pre @ [[]]) @ ts, s1)"
    by simp
  obtain schedule where rest: "run_schedule rnd xmin xmax schedule ((pre @ [[]]) @ ts, s1) =
     Some ((pre @ [[]]) @ map (\<lambda>_. []) ts,
      fold (\<lambda>is s. fold (cuda_iteration rnd xmin
              (histogram_bin_width rnd xmin xmax (length (histogram_out_array s)))) is s)
        ts s1)"
    using Cons.IH by blast
  have "run_schedule rnd xmin xmax (replicate (length t) (length pre) @ schedule) (pre @ t # ts, s) =
     Some (pre @ map (\<lambda>_. []) (t # ts),
      fold (\<lambda>is s. fold (cuda_iteration rnd xmin
              (histogram_bin_width rnd xmin xmax (length (histogram_out_array s)))) is s)
        (t # ts) s)"
    unfolding run_schedule_append first using rest by (simp add: s1_def)
  then show ?case ..
qed

lemma x_array_cuda_histogram [simp]:
  "x_array (cuda_histogram rnd start stride xmin xmax s) = x_array s"
  by (simp add: cuda_histogram_accumulate)

lemma threads_in_turn_fold:
  "length (x_array s) = M \<Longrightarrow>
   fold (\<lambda>is s. fold (cuda_iteration rnd xmin
           (histogram_bin_width rnd xmin xmax (length (histogram_out_array s)))) is s)
     (map (\<lambda>start. py_range start M stride) starts) s =
   fold (\<lambda>start. cuda_histogram rnd start stride xmin xmax) starts s"
proof (induction starts arbitrary: s)
  case Nil
  then show ?case by simp
next
  case (Cons k starts)
  have "length (x_array (cuda_histogram rnd k stride xmin xmax s)) = M"
    using Cons.prems by simp
  then show ?case
    using Cons.prems by (simp add: Cons.IH cuda_histogram_def)
qed

lemma launch_in_turn_is_schedule:
  "\<exists>schedule. run_schedule rnd xmin xmax schedule
      (threads_of_launch blocks_per_grid threads_per_block s, s) =
     Some (map (\<lambda>_. []) (threads_of_launch blocks_per_grid threads_per_block s),
      launch_in_turn rnd blocks_per_grid threads_per_block xmin xmax s)"
proof -
  have "launch_in_turn rnd blocks_per_grid threads_per_block xmin xmax s =
        fold (\<lambda>is s. fold (cuda_iteration rnd xmin
           (histogram_bin_width rnd xmin xmax (length (histogram_out_array s)))) is s)
          (threads_of_launch blocks_per_grid threads_per_block s) s"
    unfolding launch_in_turn_def threads_of_launch_def
    by (rule threads_in_turn_fold [symmetric]) simp
  then show ?thesis
    using threads_run_in_turn [of rnd xmin xmax "[]"] by simp
qed

text \<open>Every index a thread of a launch visits is an index of \<open>x\<close>.\<close>

lemma threads_of_launch_in_range:
  "is \<in> set (threads_of_launch blocks_per_grid threads_per_block s) \<Longrightarrow> i \<in> set is \<Longrightarrow>
   i < length (x_array s)"
  by (auto simp: threads_of_launch_def dest: py_range_less)

lemma concat_map_Nil: "concat (map (\<lambda>_. []) ts) = []"
  by (induction ts) auto

subsection \<open>What a call leaves in the counters\<close>

lemma cpu_histogram_single:
  "cpu_histogram rnd xmin xmax \<lparr>x_array = [element], histogram_out_array = histogram_out\<rparr> =
   \<lparr>x_array = [element],
    histogram_out_array = count_element rnd element xmin
      (histogram_bin_width rnd xmin xmax (length histogram_out)) histogram_out\<rparr>"
  by (simp add: cpu_histogram_accumulate)

lemma fold_count_element_mset:
  assumes "mset xs = mset ys"
  shows "fold (\<lambda>element. count_element rnd element xmin bin_width) xs =
         fold (\<lambda>element. count_element rnd element xmin bin_width) ys"
proof (rule fold_multiset_equiv [OF _ assms])
  fix e1 e2
  show "count_element rnd e1 xmin bin_width \<circ> count_element rnd e2 xmin bin_width =
        count_element rnd e2 xmin bin_width \<circ> count_element rnd e1 xmin bin_width"
    by (rule ext) (simp add: count_element_commute)
qed

lemma histogram_out_cpu_histogram:
  fixes s :: "('c::semiring_1) memory"
  shows "histogram_out_array (cpu_histogram rnd xmin xmax s) =
   map (\<lambda>b. histogram_out_array s ! b +
              of_nat (samples_in_bin rnd (x_array s) xmin xmax (length (histogram_out_array s)) b))
     [0..<length (histogram_out_array s)]"
  by (rule nth_equalityI)
    (simp_all add: cpu_histogram_accumulate nth_fold_count_element samples_in_bin_def)

lemma length_histogram_out_cpu_histogram [simp]:
  "length (histogram_out_array (cpu_histogram rnd xmin xmax s)) = length (histogram_out_array s)"
  by (simp add: cpu_histogram_accumulate)

lemma x_array_cpu_histogram [simp]:
  "x_array (cpu_histogram rnd xmin xmax s) = x_array s"
  by (simp add: cpu_histogram_accumulate)

lemma count_element_no_bins [simp]: "count_element rnd element xmin bin_width [] = []"
  by (simp add: count_element_def)

lemma fold_count_element_no_bins [simp]:
  "fold (\<lambda>element. count_element rnd element xmin bin_width) xs [] = []"
  by (induction xs) simp_all


subsection \<open>The cast and the sum of the counters\<close>

lemma trunc_toward_zero_nonneg_iff: "0 \<le> trunc_toward_zero q \<longleftrightarrow> - 1 < q"
proof (cases "q < 0")
  case True
  have "\<lfloor>- q\<rfloor> \<le> 0 \<longleftrightarrow> - q < 1"
    by (simp add: floor_le_iff)
  then show ?thesis
    using True by (simp add: trunc_toward_zero_def; linarith?)
next
  case False
  then show ?thesis
    by (simp add: trunc_toward_zero_def)
qed

lemma trunc_toward_zero_less_iff:
  assumes "0 < n"
  shows "trunc_toward_zero q < int n \<longleftrightarrow> q < real n"
proof (cases "q < 0")
  case True
  then have "trunc_toward_zero q \<le> 0"
    by (simp add: trunc_toward_zero_def)
  then have "trunc_toward_zero q < int n"
    using assms by linarith
  moreover have "q < real n"
    using True of_nat_0_le_iff [of n, where 'a = real] by linarith
  ultimately show ?thesis
    by simp
next
  case False
  then show ?thesis
    by (simp add: trunc_toward_zero_def floor_less_iff)
qed

lemma np_int32_in_bins_iff:
  assumes "0 < n" "int n \<le> 2 ^ 31"
  shows "0 \<le> np_int32 (Finite q) \<and> np_int32 (Finite q) < int n \<longleftrightarrow> - 1 < q \<and> q < real n"
proof -
  have "0 \<le> np_int32 (Finite q) \<and> np_int32 (Finite q) < int n \<longleftrightarrow>
        0 \<le> trunc_toward_zero q \<and> trunc_toward_zero q < int n"
    using assms by auto
  then show ?thesis
    using assms(1) by (simp add: trunc_toward_zero_nonneg_iff trunc_toward_zero_less_iff)
qed

lemma samples_in_bin_Cons:
  "samples_in_bin rnd (element # x) xmin xmax n b =
   (if bin_number rnd element xmin (histogram_bin_width rnd xmin xmax n) = int b
    then 1 else 0) + samples_in_bin rnd x xmin xmax n b"
  by (simp add: samples_in_bin_def)

lemma sum_one_bin:
  "(\<Sum>b<n. if k = int b then 1 else 0 :: nat) = (if 0 \<le> k \<and> k < int n then 1 else 0)"
proof (cases "0 \<le> k")
  case True
  have "(\<Sum>b<n. if k = int b then 1 else 0 :: nat) = (\<Sum>b<n. if b = nat k then 1 else 0)"
    using True by (intro sum.cong) auto
  then show ?thesis
    using True by auto
next
  case False
  then show ?thesis
    by simp
qed

lemma sum_samples_in_bin:
  "(\<Sum>b<n. samples_in_bin rnd x xmin xmax n b) =
   length (filter (\<lambda>element.
     0 \<le> bin_number rnd element xmin (histogram_bin_width rnd xmin xmax n) \<and>
     bin_number rnd element xmin (histogram_bin_width rnd xmin xmax n) < int n) x)"
proof (induction x)
  case Nil
  then show ?case
    by (simp add: samples_in_bin_def)
next
  case (Cons element x)
  define k where "k = bin_number rnd element xmin (histogram_bin_width rnd xmin xmax n)"
  have "(\<Sum>b<n. samples_in_bin rnd (element # x) xmin xmax n b) =
        (\<Sum>b<n. if k = int b then 1 else 0) + (\<Sum>b<n. samples_in_bin rnd x xmin xmax n b)"
    unfolding samples_in_bin_Cons k_def [symmetric] by (rule sum.distrib)
  then show ?case
    unfolding sum_one_bin Cons.IH by (simp add: k_def)
qed

lemma counts_sum_le_samples:
  "(\<Sum>b<n. samples_in_bin rnd x xmin xmax n b) \<le> length x"
  unfolding sum_samples_in_bin by (rule length_filter_le)

subsection \<open>A launch of two threads on three samples, interleaved\<close>

lemma example_schedule:
  "run_schedule float32 0 10 [1, 0, 0]
     (threads_of_launch 1 2
        \<lparr>x_array = [1/2, 5/2, 9], histogram_out_array = [0, 0, 0, 0, 0 :: 32 word]\<rparr>,
      \<lparr>x_array = [1/2, 5/2, 9], histogram_out_array = [0, 0, 0, 0, 0 :: 32 word]\<rparr>) =
   Some ([[], []],
      \<lparr>x_array = [1/2, 5/2, 9], histogram_out_array = [1, 1, 0, 0, 1 :: 32 word]\<rparr>)"
  by code_simp

subsection \<open>The samples under a launch\<close>

lemma x_array_launch_in_turn [simp]:
  "x_array (launch_in_turn rnd blocks_per_grid threads_per_block xmin xmax s) = x_array s"
  by (simp add: launch_in_turn_def threads_in_turn_accumulate)

lemma cuda_histogram_no_samples:
  "x_array s = [] \<Longrightarrow> cuda_histogram rnd start stride xmin xmax s = s"
  by (simp add: cuda_histogram_def py_range_empty)

lemma launch_in_turn_no_samples:
  "x_array s = [] \<Longrightarrow> launch_in_turn rnd blocks_per_grid threads_per_block xmin xmax s = s"
proof -
  assume e: "x_array s = []"
  have "fold (\<lambda>start. cuda_histogram rnd start stride xmin xmax) starts s = s" for stride starts
    by (induction starts) (simp_all add: cuda_histogram_no_samples e)
  then show ?thesis
    by (simp add: launch_in_turn_def)
qed

subsection \<open>The exponent of a float\<close>

lemma bit_length_nonneg: "0 \<le> bit_length n"
  by (induction n rule: bit_length.induct) (subst bit_length.simps, simp)

lemma bit_length_pos: "0 < n \<Longrightarrow> 0 < bit_length n"
  using bit_length_nonneg [of "n div 2"] by (subst bit_length.simps) simp

lemma bit_length_bounds:
  "0 < n \<Longrightarrow> 2 ^ nat (bit_length n - 1) \<le> n \<and> n < 2 ^ nat (bit_length n)"
proof (induction n rule: bit_length.induct)
  case (1 n)
  show ?case
  proof (cases "n div 2 = 0")
    case True
    then have "n = 1"
      using "1.prems" by presburger
    then show ?thesis
      by (simp add: bit_length.simps)
  next
    case False
    define m where "m = n div 2"
    define k where "k = bit_length m"
    have m: "0 < m"
      using False "1.prems" unfolding m_def by presburger
    have k: "0 < k"
      unfolding k_def using m by (rule bit_length_pos)
    have IH: "2 ^ nat (k - 1) \<le> m" "m < 2 ^ nat k"
      using 1 m unfolding m_def k_def by simp_all
    have bl: "bit_length n = k + 1"
      using "1.prems" unfolding k_def m_def by (subst bit_length.simps) simp
    have n: "2 * m \<le> n" "n < 2 * m + 2"
      unfolding m_def by presburger+
    have "nat k = Suc (nat (k - 1))"
      using k by simp
    then have lo: "(2 :: int) ^ nat k = 2 * 2 ^ nat (k - 1)"
      by simp
    have "nat (k + 1) = Suc (nat k)"
      using k by simp
    then have hi: "(2 :: int) ^ nat (k + 1) = 2 * 2 ^ nat k"
      by simp
    show ?thesis
      unfolding bl using lo hi IH n by simp
  qed
qed

lemma pow2_nonneg_eq: "0 \<le> k \<Longrightarrow> pow2 k = real_of_int (2 ^ nat k)"
  by (simp add: pow2_def)

lemma pow2_neg_eq: "0 \<le> k \<Longrightarrow> pow2 (- k) = 1 / real_of_int (2 ^ nat k)"
  by (cases "k = 0") (simp_all add: pow2_def)

lemma exponent_of_bounds:
  assumes "x \<noteq> 0"
  shows "pow2 (exponent_of x) \<le> \<bar>x\<bar> \<and> \<bar>x\<bar> < pow2 (exponent_of x + 1)"
proof (cases "1 \<le> \<bar>x\<bar>")
  case True
  define n where "n = \<lfloor>\<bar>x\<bar>\<rfloor>"
  have n: "0 < n"
    using True unfolding n_def by simp
  have k: "0 < bit_length n"
    using n by (rule bit_length_pos)
  have b: "2 ^ nat (bit_length n - 1) \<le> n" "n < 2 ^ nat (bit_length n)"
    using bit_length_bounds [OF n] by simp_all
  have e: "exponent_of x = bit_length n - 1"
    using True by (simp add: exponent_of_def n_def)
  have x: "real_of_int n \<le> \<bar>x\<bar>" "\<bar>x\<bar> < real_of_int n + 1"
    unfolding n_def by linarith+
  have "real_of_int (2 ^ nat (bit_length n - 1)) \<le> real_of_int n"
    using b(1) by (simp only: of_int_le_iff)
  then have lo: "pow2 (bit_length n - 1) \<le> real_of_int n"
    using k by (simp add: pow2_nonneg_eq)
  have "n + 1 \<le> 2 ^ nat (bit_length n)"
    using b(2) by simp
  then have "real_of_int (n + 1) \<le> real_of_int (2 ^ nat (bit_length n))"
    by (simp only: of_int_le_iff)
  then have hi: "real_of_int n + 1 \<le> pow2 (bit_length n)"
    using k by (simp add: pow2_nonneg_eq)
  show ?thesis
    using x lo hi by (simp add: e; linarith)
next
  case False
  define r where "r = 1 / \<bar>x\<bar>"
  define m where "m = \<lceil>r\<rceil> - 1"
  define k where "k = bit_length m"
  have x: "0 < \<bar>x\<bar>" "\<bar>x\<bar> < 1"
    using assms False by simp_all
  have r: "1 < r"
    using x by (simp add: r_def)
  have m: "0 < m"
    unfolding m_def using r by (simp add: less_ceiling_iff)
  have k: "0 < k"
    unfolding k_def using m by (rule bit_length_pos)
  have b: "2 ^ nat (k - 1) \<le> m" "m < 2 ^ nat k"
    using bit_length_bounds [OF m] unfolding k_def by simp_all
  have e: "exponent_of x = - k"
    using False by (simp add: exponent_of_def k_def m_def r_def)
  have mr: "real_of_int m < r" "r \<le> real_of_int (m + 1)"
    unfolding m_def by linarith+
  have "real_of_int (2 ^ nat (k - 1)) \<le> real_of_int m"
    using b(1) by (simp only: of_int_le_iff)
  then have lo: "real_of_int (2 ^ nat (k - 1)) < r"
    using mr(1) by linarith
  have "m + 1 \<le> 2 ^ nat k"
    using b(2) by simp
  then have "real_of_int (m + 1) \<le> real_of_int (2 ^ nat k)"
    by (simp only: of_int_le_iff)
  then have hi: "r \<le> real_of_int (2 ^ nat k)"
    using mr(2) by linarith
  have p1: "0 < real_of_int (2 ^ nat k)" and p2: "0 < real_of_int (2 ^ nat (k - 1))"
    by simp_all
  have "1 / real_of_int (2 ^ nat k) \<le> 1 / r"
    using hi r by (intro divide_left_mono) simp_all
  then have low: "pow2 (- k) \<le> \<bar>x\<bar>"
    using k x(1) by (simp add: pow2_neg_eq r_def)
  have "1 / r < 1 / real_of_int (2 ^ nat (k - 1))"
    using lo p2 r by (intro divide_strict_left_mono) (simp_all add: zero_less_mult_iff)
  moreover have "pow2 (- (k - 1)) = 1 / real_of_int (2 ^ nat (k - 1))"
    using k by (intro pow2_neg_eq) simp
  ultimately have high: "\<bar>x\<bar> < pow2 (- (k - 1))"
    using x(1) by (simp add: r_def)
  have eq: "- k + 1 = - (k - 1)"
    by simp
  show ?thesis
    unfolding e eq using low high by blast
qed

subsection \<open>The rounding on known values\<close>

lemma float32_known_values:
  "float32 (1 / 10) = Finite (13421773 / 2 ^ 27)"
  "float32 (8 / 7) = Finite (9586981 / 2 ^ 23)"
  "float32 16777217 = Finite 16777216"
  "float32 (- 1 / 4) = Finite (- 1 / 4)"
  "float32 (3 / 2 ^ 150) = Finite (1 / 2 ^ 148)"
  "float32 (340282356779733661637539395458142568447) =
     Finite 340282346638528859811704183484516925440"
  "float32 (340282356779733661637539395458142568448) = PosInf"
  by code_simp+

lemma float64_known_values:
  "float64 (1 / 10) = Finite (3602879701896397 / 2 ^ 55)"
  "float64 (8 / 105) = Finite (1372525600722437 / 2 ^ 54)"
  "float64 9007199254740993 = Finite 9007199254740992"
  by code_simp+

section \<open>The claims\<close>

text \<open>
  C1. The claim: the bin of a sample is \<open>floor((v - low) / bin_width)\<close>, and the sample is
  counted exactly when that index is one of the bins, so that every value outside
  \<open>[low, high)\<close> is dropped. The code takes the index with \<open>np.int32\<close>, which rounds
  toward zero: a sample less than one bin width below \<open>low\<close> gets index 0 and is counted.
  With the range \<open>[0, 10)\<close> and 5 bins, the sample \<open>-0.5\<close> has the floor index \<open>-1\<close>, and
  the code counts it in bin 0.
\<close>

theorem cast_counts_sample_below_xmin:
  "spec_bin_index (- 1 / 2) 0 10 5 = - 1 \<and>
   histogram_out_array
     (cpu_histogram float32 0 10
        \<lparr>x_array = [- 1 / 2], histogram_out_array = [0, 0, 0, 0, 0 :: 32 word]\<rparr>) =
   [1, 0, 0, 0, 0]"
  by code_simp




text \<open>
  C3. The claim: for a valid range the counts sum to at most the number of samples, with
  equality exactly when every sample is in \<open>[low, high)\<close>. The rounding toward zero of C1
  breaks the "only if": with the range \<open>[-4, 4)\<close> and 8 bins, the samples \<open>-4.5\<close> and \<open>0\<close>
  are both counted, so the counts sum to the number of samples although \<open>-4.5 < low\<close>.
\<close>

theorem counts_sum_with_sample_below_xmin:
  "sum_list (map sint (histogram_out_array
     (cpu_histogram float32 (- 4) 4
        \<lparr>x_array = [- 9 / 2, 0], histogram_out_array = [0, 0, 0, 0, 0, 0, 0, 0 :: 32 word]\<rparr>))) =
   int (length [- 9 / 2, 0 :: real]) \<and> \<not> (- 4 \<le> (- 9 / 2 :: real))"
  by code_simp

text \<open>
  C4. For every input and every launch of at least one block of at least one thread, the
  workers with their start/stride partition leave the memory the sequential
  \<open>cpu_histogram\<close> leaves: when the threads run one after the other, and in every other
  schedule of the launch that runs all iterations; and such a schedule exists.
\<close>

theorem workers_agree_with_cpu:
  assumes "0 < blocks_per_grid" and "0 < threads_per_block"
  shows "launch_in_turn rnd blocks_per_grid threads_per_block xmin xmax s = cpu_histogram rnd xmin xmax s \<and>
   (\<forall>schedule ts' s'.
       run_schedule rnd xmin xmax schedule
         (threads_of_launch blocks_per_grid threads_per_block s, s) = Some (ts', s')
       \<and> concat ts' = [] \<longrightarrow> s' = cpu_histogram rnd xmin xmax s) \<and>
   (\<exists>schedule ts'.
       run_schedule rnd xmin xmax schedule
         (threads_of_launch blocks_per_grid threads_per_block s, s) =
         Some (ts', cpu_histogram rnd xmin xmax s)
       \<and> concat ts' = [])"
proof (intro conjI allI impI)
  show in_turn: "launch_in_turn rnd blocks_per_grid threads_per_block xmin xmax s = cpu_histogram rnd xmin xmax s"
    using assms by (rule launch_in_turn_eq_cpu)
  show "s' = cpu_histogram rnd xmin xmax s"
    if "run_schedule rnd xmin xmax schedule
          (threads_of_launch blocks_per_grid threads_per_block s, s) = Some (ts', s')
        \<and> concat ts' = []" for schedule ts' s'
    using assms that by (blast intro: finished_schedule_eq_cpu)
  obtain schedule where "run_schedule rnd xmin xmax schedule
      (threads_of_launch blocks_per_grid threads_per_block s, s) =
     Some (map (\<lambda>_. []) (threads_of_launch blocks_per_grid threads_per_block s),
      cpu_histogram rnd xmin xmax s)"
    using launch_in_turn_is_schedule [of rnd xmin xmax blocks_per_grid threads_per_block s]
    unfolding in_turn by blast
  then show "\<exists>schedule ts'. run_schedule rnd xmin xmax schedule
         (threads_of_launch blocks_per_grid threads_per_block s, s) =
         Some (ts', cpu_histogram rnd xmin xmax s)
       \<and> concat ts' = []"
    using concat_map_Nil by blast
qed

theorem workers_agree_with_cpu_witness:
  "(0 :: nat) < 1 \<and> (0 :: nat) < 2 \<and>
   launch_in_turn float32 1 2 0 10
     \<lparr>x_array = [1/2, 5/2, 9], histogram_out_array = [0, 0, 0, 0, 0 :: 32 word]\<rparr> =
   \<lparr>x_array = [1/2, 5/2, 9], histogram_out_array = [1, 1, 0, 0, 1]\<rparr> \<and>
   run_schedule float32 0 10 [1, 0, 0]
     (threads_of_launch 1 2
        \<lparr>x_array = [1/2, 5/2, 9], histogram_out_array = [0, 0, 0, 0, 0 :: 32 word]\<rparr>,
      \<lparr>x_array = [1/2, 5/2, 9], histogram_out_array = [0, 0, 0, 0, 0 :: 32 word]\<rparr>) =
   Some ([[], []],
      \<lparr>x_array = [1/2, 5/2, 9], histogram_out_array = [1, 1, 0, 0, 1 :: 32 word]\<rparr>) \<and>
   concat [[], [] :: nat list] = [] \<and>
   \<lparr>x_array = [1/2, 5/2, 9], histogram_out_array = [1, 1, 0, 0, 1 :: 32 word]\<rparr> =
   cpu_histogram float32 0 10
     \<lparr>x_array = [1/2, 5/2, 9], histogram_out_array = [0, 0, 0, 0, 0 :: 32 word]\<rparr>"
proof -
  let ?s0 = "\<lparr>x_array = [1/2, 5/2, 9], histogram_out_array = [0, 0, 0, 0, 0 :: 32 word]\<rparr>"
  let ?s3 = "\<lparr>x_array = [1/2, 5/2, 9], histogram_out_array = [1, 1, 0, 0, 1 :: 32 word]\<rparr>"
  have all: "launch_in_turn float32 1 2 0 10 ?s0 = cpu_histogram float32 0 10 ?s0 \<and>
     (\<forall>schedule ts' s'.
        run_schedule float32 0 10 schedule (threads_of_launch 1 2 ?s0, ?s0) = Some (ts', s')
        \<and> concat ts' = [] \<longrightarrow> s' = cpu_histogram float32 0 10 ?s0)"
    using workers_agree_with_cpu [of 1 2 float32 0 10 ?s0] by simp
  have run: "run_schedule float32 0 10 [1, 0, 0] (threads_of_launch 1 2 ?s0, ?s0) = Some ([[], []], ?s3)"
    by (rule example_schedule)
  have fin: "concat [[], [] :: nat list] = []"
    by simp
  have end_state: "?s3 = cpu_histogram float32 0 10 ?s0"
    using all run fin by blast
  then have "launch_in_turn float32 1 2 0 10 ?s0 = ?s3"
    using all by simp
  then show ?thesis
    using run end_state by simp
qed

text \<open>
  C5. For every input length \<open>M\<close> and every number \<open>W >= 1\<close> of workers, worker \<open>k < W\<close>
  with start \<open>k\<close> and stride \<open>W\<close> visits the indices of \<open>range(k, M, W)\<close>: the index sets of
  two different workers are disjoint, their union over the workers is \<open>{0, ..., M-1}\<close>, no
  worker visits an index twice, and a worker whose start is not below \<open>M\<close> visits nothing.
  The starts of a launch are \<open>0, ..., W-1\<close> with \<open>W\<close> the size of the grid
  (\<open>thread_starts_upt\<close>).
\<close>

theorem stride_partition:
  assumes "0 < W"
  shows "(\<forall>k<W. \<forall>k'<W. k \<noteq> k' \<longrightarrow> set (py_range k M W) \<inter> set (py_range k' M W) = {}) \<and>
   (\<Union>k<W. set (py_range k M W)) = {0..<M} \<and>
   (\<forall>k. distinct (py_range k M W)) \<and>
   (\<forall>k. M \<le> k \<longrightarrow> py_range k M W = [])"
proof (intro conjI allI impI)
  show "set (py_range k M W) \<inter> set (py_range k' M W) = {}"
    if "k < W" "k' < W" "k \<noteq> k'" for k k'
    using that by (auto simp: set_py_range_thread)
  show "(\<Union>k<W. set (py_range k M W)) = {0..<M}"
    using assms by (auto simp: set_py_range_thread)
  show "distinct (py_range k M W)" for k
    using assms by (rule distinct_py_range)
  show "py_range k M W = []" if "M \<le> k" for k
    using that by (rule py_range_empty)
qed

theorem stride_partition_witness:
  "(0 :: nat) < 3 \<and> set (py_range 0 7 3) \<inter> set (py_range 1 7 3) = {} \<and>
   set (py_range 0 7 3) \<union> set (py_range 1 7 3) \<union> set (py_range 2 7 3) = {0..<7} \<and>
   py_range 0 7 3 = [0, 3, 6] \<and> py_range 2 2 3 = []"
proof -
  have all: "(\<forall>k<3. \<forall>k'<3. k \<noteq> k' \<longrightarrow> set (py_range k 7 3) \<inter> set (py_range k' 7 3) = {}) \<and>
     (\<Union>k<3. set (py_range k 7 3)) = {0..<7}"
    using stride_partition [of 3 7] by simp
  then have "set (py_range 0 7 3) \<inter> set (py_range 1 7 3) = {}"
    by simp
  moreover have "{..<3 :: nat} = {0, 1, 2}"
    by auto
  then have "set (py_range 0 7 3) \<union> set (py_range 1 7 3) \<union> set (py_range 2 7 3) = {0..<7}"
    using all by auto
  moreover have "py_range 0 7 3 = [0, 3, 6]"
    by code_simp
  moreover have "py_range 2 2 3 = []"
    using stride_partition [of 3 2] by simp
  ultimately show ?thesis
    by simp
qed

text \<open>
  C6. The claim: for every valid range and bin count, a sample equal to \<open>low\<close> is
  counted in bin 0 and a sample equal to \<open>high\<close> is not counted. The second half fails in
  the code's float arithmetic, against its docstring range \<open>[xmin, xmax)\<close>: the bin width is
  rounded, and where it is rounded up, \<open>(xmax - xmin) / bin_width\<close> falls below the number
  of bins and the cast makes it the last bin. With the range \<open>[-4, 4)\<close> the sample 4 is
  counted in the last of 7 bins in float32 (the width is 9586981/2^23, above 8/7), and in
  the last of 105 bins in float64 and in float32.
\<close>

theorem xmax_counted_after_rounding:
  "cpu_histogram float32 (- 4) 4
     \<lparr>x_array = [4], histogram_out_array = [0, 0, 0, 0, 0, 0, 0 :: 32 word]\<rparr> =
     \<lparr>x_array = [4], histogram_out_array = [0, 0, 0, 0, 0, 0, 1]\<rparr> \<and>
   histogram_bin_width float32 (- 4) 4 7 = Finite (9586981 / 2 ^ 23) \<and>
   bin_number float32 4 (- 4) (histogram_bin_width float32 (- 4) 4 7) = 6 \<and>
   cpu_histogram float64 (- 4) 4
     \<lparr>x_array = [4], histogram_out_array = replicate 105 (0 :: 32 word)\<rparr> =
     \<lparr>x_array = [4], histogram_out_array = (replicate 105 0)[104 := 1]\<rparr> \<and>
   histogram_bin_width float64 (- 4) 4 105 = Finite (1372525600722437 / 2 ^ 54) \<and>
   bin_number float64 4 (- 4) (histogram_bin_width float64 (- 4) 4 105) = 104 \<and>
   bin_number float32 4 (- 4) (histogram_bin_width float32 (- 4) 4 105) = 104"
  by code_simp

text \<open>
  C7. On the empty sample array a call changes nothing: counters that are \<open>bin_count\<close>
  zeros before the call are \<open>bin_count\<close> zeros after it, for every range and bin count,
  under \<open>cpu_histogram\<close> and under a launch of \<open>cuda_histogram\<close>. Nothing in the code can
  raise.
\<close>

theorem empty_samples_leave_zeros:
  "cpu_histogram rnd xmin xmax \<lparr>x_array = [], histogram_out_array = replicate bin_count 0\<rparr> =
     \<lparr>x_array = [], histogram_out_array = replicate bin_count 0\<rparr> \<and>
   launch_in_turn rnd blocks_per_grid threads_per_block xmin xmax
     \<lparr>x_array = [], histogram_out_array = replicate bin_count 0\<rparr> =
     \<lparr>x_array = [], histogram_out_array = replicate bin_count 0\<rparr>"
  by (simp add: cpu_histogram_accumulate launch_in_turn_no_samples)

text \<open>
  C8. For every range, every initial content of the counters and every permutation \<open>x'\<close>
  of the samples \<open>x\<close>, the call on \<open>x'\<close> leaves the counters the call on \<open>x\<close> leaves.
\<close>

theorem permuted_samples_same_counts:
  assumes "mset x' = mset x"
  shows "histogram_out_array
      (cpu_histogram rnd xmin xmax \<lparr>x_array = x', histogram_out_array = histogram_out\<rparr>) =
    histogram_out_array
      (cpu_histogram rnd xmin xmax \<lparr>x_array = x, histogram_out_array = histogram_out\<rparr>)"
  by (simp add: cpu_histogram_accumulate fold_count_element_mset [OF assms])

theorem permuted_samples_same_counts_witness:
  "mset [9, 1/2, 5/2] = mset [1/2, 5/2, 9 :: real] \<and>
   histogram_out_array
     (cpu_histogram float32 0 10 \<lparr>x_array = [9, 1/2, 5/2], histogram_out_array = [0, 0, 0, 0, 0 :: 32 word]\<rparr>) =
   histogram_out_array
     (cpu_histogram float32 0 10 \<lparr>x_array = [1/2, 5/2, 9], histogram_out_array = [0, 0, 0, 0, 0 :: 32 word]\<rparr>)"
proof -
  have "mset [9, 1/2, 5/2] = mset [1/2, 5/2, 9 :: real]"
    by simp
  then show ?thesis
    using permuted_samples_same_counts
      [of "[9, 1/2, 5/2]" "[1/2, 5/2, 9]" float32 0 10 "[0, 0, 0, 0, 0 :: 32 word]"]
    by blast
qed

text \<open>
  C9. A call never modifies the sample array: after \<open>cpu_histogram\<close>, after the kernel
  run by one thread, after a launch whose threads run in turn, and after every schedule of
  a launch, finished or not, \<open>x\<close> is what it was before. The memory holds the samples and
  the counters only, so the counters are all that changes.
\<close>

theorem samples_never_modified:
  "x_array (cpu_histogram rnd xmin xmax s) = x_array s \<and>
   x_array (cuda_histogram rnd start stride xmin xmax s) = x_array s \<and>
   x_array (launch_in_turn rnd blocks_per_grid threads_per_block xmin xmax s) = x_array s \<and>
   (\<forall>schedule ts' s'.
      run_schedule rnd xmin xmax schedule
        (threads_of_launch blocks_per_grid threads_per_block s, s) = Some (ts', s')
      \<longrightarrow> x_array s' = x_array s)"
  using run_schedule_x_array [of rnd xmin xmax _ "(_, s)" "(_, _)"] by simp

theorem samples_never_modified_witness:
  "run_schedule float32 0 10 [1, 0, 0]
     (threads_of_launch 1 2
        \<lparr>x_array = [1/2, 5/2, 9], histogram_out_array = [0, 0, 0, 0, 0 :: 32 word]\<rparr>,
      \<lparr>x_array = [1/2, 5/2, 9], histogram_out_array = [0, 0, 0, 0, 0 :: 32 word]\<rparr>) =
   Some ([[], []],
      \<lparr>x_array = [1/2, 5/2, 9], histogram_out_array = [1, 1, 0, 0, 1 :: 32 word]\<rparr>) \<and>
   x_array \<lparr>x_array = [1/2, 5/2, 9], histogram_out_array = [1, 1, 0, 0, 1 :: 32 word]\<rparr> =
   x_array \<lparr>x_array = [1/2, 5/2, 9], histogram_out_array = [0, 0, 0, 0, 0 :: 32 word]\<rparr>"
  using example_schedule
    samples_never_modified [of float32 0 10
      "\<lparr>x_array = [1/2, 5/2, 9], histogram_out_array = [0, 0, 0, 0, 0 :: 32 word]\<rparr>" _ _ 1 2]
  by blast

text \<open>
  C10. The accumulation adds to what the counters hold: for every input and every initial
  content of \<open>histogram_out\<close>, each bin ends with its initial value plus the number of
  samples the code assigns to that bin, in the arithmetic of the counters; a second call on
  the same data adds that number once more; and a launch of the kernel leaves the same
  counters. Nothing resets a counter.
\<close>

theorem accumulation_is_additive:
  fixes s :: "('c::semiring_1) memory"
  shows "histogram_out_array (cpu_histogram rnd xmin xmax s) =
     map (\<lambda>b. histogram_out_array s ! b +
            of_nat (samples_in_bin rnd (x_array s) xmin xmax (length (histogram_out_array s)) b))
       [0..<length (histogram_out_array s)] \<and>
   histogram_out_array (cpu_histogram rnd xmin xmax (cpu_histogram rnd xmin xmax s)) =
     map (\<lambda>b. histogram_out_array s ! b +
            of_nat (2 * samples_in_bin rnd (x_array s) xmin xmax (length (histogram_out_array s)) b))
       [0..<length (histogram_out_array s)] \<and>
   (0 < blocks_per_grid \<and> 0 < threads_per_block \<longrightarrow>
    histogram_out_array (launch_in_turn rnd blocks_per_grid threads_per_block xmin xmax s) =
     map (\<lambda>b. histogram_out_array s ! b +
            of_nat (samples_in_bin rnd (x_array s) xmin xmax (length (histogram_out_array s)) b))
       [0..<length (histogram_out_array s)])"
proof (intro conjI impI)
  show once: "histogram_out_array (cpu_histogram rnd xmin xmax s) =
     map (\<lambda>b. histogram_out_array s ! b +
            of_nat (samples_in_bin rnd (x_array s) xmin xmax (length (histogram_out_array s)) b))
       [0..<length (histogram_out_array s)]"
    by (rule histogram_out_cpu_histogram)
  show "histogram_out_array (cpu_histogram rnd xmin xmax (cpu_histogram rnd xmin xmax s)) =
     map (\<lambda>b. histogram_out_array s ! b +
            of_nat (2 * samples_in_bin rnd (x_array s) xmin xmax (length (histogram_out_array s)) b))
       [0..<length (histogram_out_array s)]"
    by (rule nth_equalityI)
      (simp_all add: histogram_out_cpu_histogram [of rnd xmin xmax "cpu_histogram rnd xmin xmax s"]
        once add.assoc mult_2)
  show "histogram_out_array (launch_in_turn rnd blocks_per_grid threads_per_block xmin xmax s) =
     map (\<lambda>b. histogram_out_array s ! b +
            of_nat (samples_in_bin rnd (x_array s) xmin xmax (length (histogram_out_array s)) b))
       [0..<length (histogram_out_array s)]"
    if "0 < blocks_per_grid \<and> 0 < threads_per_block"
    using that by (simp only: launch_in_turn_eq_cpu once)
qed

theorem accumulation_is_additive_witness:
  "(0 :: nat) < 1 \<and> (0 :: nat) < 2 \<and>
   histogram_out_array (launch_in_turn float32 1 2 0 10
     \<lparr>x_array = [1/2, 5/2, 9, 1], histogram_out_array = [7, 0, 2147483647, 0, 5 :: 32 word]\<rparr>) =
   [7 + 2, 0 + 1, 2147483647 + 0, 0 + 0, 5 + 1]"
proof -
  let ?s = "\<lparr>x_array = [1/2, 5/2, 9, 1], histogram_out_array = [7, 0, 2147483647, 0, 5 :: 32 word]\<rparr>"
  have "histogram_out_array (launch_in_turn float32 1 2 0 10 ?s) =
     map (\<lambda>b. histogram_out_array ?s ! b +
            of_nat (samples_in_bin float32 (x_array ?s) 0 10 (length (histogram_out_array ?s)) b))
       [0..<length (histogram_out_array ?s)]"
    using accumulation_is_additive [of float32 0 10 ?s 1 2] by simp
  also have "\<dots> = [7 + 2, 0 + 1, 2147483647 + 0, 0 + 0, 5 + 1]"
    by code_simp
  finally show ?thesis
    by simp
qed

end
